theory Spec2Isabelle
  imports Main
begin

section \<open>The data of App.js\<close>

text \<open>
  A square of the board holds \<^verbatim>\<open>null\<close>, \<^verbatim>\<open>"X"\<close> or \<^verbatim>\<open>"O"\<close> (the marks \<open>MarkX\<close> and
  \<open>MarkO\<close>; the letter O alone is relation composition in HOL). Reading a JavaScript
  array where nothing is stored gives \<^verbatim>\<open>undefined\<close>: a read returns a \<open>cell option\<close>,
  with \<open>None\<close> for \<^verbatim>\<open>undefined\<close>.
\<close>

datatype mark = MarkX | MarkO

datatype cell = Null | Str mark

text \<open>
  A JavaScript array: its elements at the indices \<open>0 ..< length\<close>, where \<open>None\<close> is a
  hole (an index below the length that was never assigned), and the properties stored
  under integer keys that are not array indices (negative, or above \<open>2^32 - 2\<close>); of
  two entries with one key the first is the property's value.
\<close>

record jsarray =
  elems :: "cell option list"
  props :: "(int \<times> cell) list"

definition is_index :: "int \<Rightarrow> bool" where
  "is_index i = (0 \<le> i \<and> i < 2 ^ 32 - 1)"

text \<open>\<^verbatim>\<open>a[i]\<close>: \<^verbatim>\<open>undefined\<close> at a hole, beyond the length and at a missing property.\<close>

definition arr_get :: "jsarray \<Rightarrow> int \<Rightarrow> cell option" where
  "arr_get a i =
     (if is_index i
      then (if nat i < length (elems a) then elems a ! nat i else None)
      else map_of (props a) i)"

text \<open>
  \<^verbatim>\<open>a[i] = v\<close>: an index below the length is overwritten; an index at or beyond the
  length extends the array, leaving holes in between; any other integer key becomes a
  property and the length is unchanged.
\<close>

definition arr_set :: "jsarray \<Rightarrow> int \<Rightarrow> cell \<Rightarrow> jsarray" where
  "arr_set a i v =
     (if is_index i
      then (if nat i < length (elems a)
            then a\<lparr>elems := (elems a)[nat i := Some v]\<rparr>
            else a\<lparr>elems := elems a @ replicate (nat i - length (elems a)) None @ [Some v]\<rparr>)
      else a\<lparr>props := (i, v) # props a\<rparr>)"

text \<open>\<^verbatim>\<open>a.slice()\<close> copies the elements (holes included) and no other property.\<close>

definition arr_slice :: "jsarray \<Rightarrow> jsarray" where
  "arr_slice a = \<lparr>elems = elems a, props = []\<rparr>"

text \<open>\<^verbatim>\<open>Array(9).fill(null)\<close>\<close>

definition empty_board :: jsarray where
  "empty_board = \<lparr>elems = replicate 9 (Some Null), props = []\<rparr>"

text \<open>Truthiness of what a read returns: only the two non-empty strings are truthy.\<close>

fun truthy :: "cell option \<Rightarrow> bool" where
  "truthy (Some (Str m)) = True"
| "truthy (Some Null) = False"
| "truthy None = False"

text \<open>\<^verbatim>\<open>a.every(Boolean)\<close>: the callback is not called at holes.\<close>

definition every_Boolean :: "jsarray \<Rightarrow> bool" where
  "every_Boolean a = list_all (\<lambda>e. case e of None \<Rightarrow> True | Some c \<Rightarrow> truthy (Some c)) (elems a)"

section \<open>calculateWinner\<close>

type_synonym line = "int \<times> int \<times> int"

definition lines :: "line list" where
  "lines = [(0, 1, 2), (3, 4, 5), (6, 7, 8),
            (0, 3, 6), (1, 4, 7), (2, 5, 8),
            (0, 4, 8), (2, 4, 6)]"

text \<open>
  The \<^verbatim>\<open>for (let line of lines)\<close> loop with its early return. The result
  \<^verbatim>\<open>[squares[a], line]\<close> is \<open>Some (m, line)\<close> and \<^verbatim>\<open>[null, null]\<close> is \<open>None\<close>. Under the
  condition \<^verbatim>\<open>squares[a]\<close> is truthy, so it is a mark, and the \<open>case\<close> that reads the mark
  never takes its second branch.
\<close>

fun scan_lines :: "jsarray \<Rightarrow> line list \<Rightarrow> (mark \<times> line) option" where
  "scan_lines squares [] = None"
| "scan_lines squares ((a, b, c) # rest) =
     (if truthy (arr_get squares a)
         \<and> arr_get squares a = arr_get squares b
         \<and> arr_get squares a = arr_get squares c
      then (case arr_get squares a of
              Some (Str m) \<Rightarrow> Some (m, (a, b, c))
            | _ \<Rightarrow> scan_lines squares rest)
      else scan_lines squares rest)"

definition calculateWinner :: "jsarray \<Rightarrow> (mark \<times> line) option" where
  "calculateWinner squares = scan_lines squares lines"

section \<open>The component state and its handlers\<close>

record state =
  squares :: jsarray
  xIsNext :: bool
  history :: "jsarray list"
  isGameOver :: bool
  winner :: "mark option"
  winningLine :: "line option"

text \<open>The initial values of the \<^verbatim>\<open>useState\<close> calls.\<close>

definition initial :: state where
  "initial = \<lparr>squares = empty_board, xIsNext = True, history = [],
              isGameOver = False, winner = None, winningLine = None\<rparr>"

text \<open>The body of the effect that React runs after \<^verbatim>\<open>squares\<close> was set.\<close>

definition useEffect_squares :: "state \<Rightarrow> state" where
  "useEffect_squares s =
     (case calculateWinner (squares s) of
        Some (maybeWinner, ln) \<Rightarrow>
          s\<lparr>winner := Some maybeWinner, isGameOver := True, winningLine := Some ln\<rparr>
      | None \<Rightarrow>
          if every_Boolean (squares s)
          then s\<lparr>winner := None, winningLine := None, isGameOver := True\<rparr>
          else s\<lparr>winner := None, winningLine := None, isGameOver := False\<rparr>)"

text \<open>
  \<^verbatim>\<open>handleClick(i)\<close>: \<open>None\<close> is the early return, where no setter is called; otherwise the
  state with the three setters applied.
\<close>

definition handleClick :: "state \<Rightarrow> int \<Rightarrow> state option" where
  "handleClick s i =
     (if truthy (arr_get (squares s) i) \<or> isGameOver s then None
      else let nextSquares = arr_set (arr_slice (squares s)) i (Str (if xIsNext s then MarkX else MarkO))
           in Some (s\<lparr>history := history s @ [squares s],
                     squares := nextSquares,
                     xIsNext := \<not> xIsNext s\<rparr>))"

definition handleReset :: "state \<Rightarrow> state" where
  "handleReset s =
     s\<lparr>squares := empty_board, xIsNext := True, winner := None, winningLine := None,
       isGameOver := False, history := []\<rparr>"

definition handleNewGame :: "state \<Rightarrow> state option" where
  "handleNewGame s = (if length (history s) > 0 then Some (handleReset s) else None)"

text \<open>
  One user interaction, evaluated to completion: the handler, and when it set
  \<^verbatim>\<open>squares\<close> (always to a fresh array), the effect. A handler that called no setter
  leaves the state as it is and no effect runs.
\<close>

definition applyMove :: "state \<Rightarrow> int \<Rightarrow> state" where
  "applyMove s i = (case handleClick s i of None \<Rightarrow> s | Some s' \<Rightarrow> useEffect_squares s')"

definition reset :: "state \<Rightarrow> state" where
  "reset s = useEffect_squares (handleReset s)"

definition newGame :: "state \<Rightarrow> state" where
  "newGame s = (case handleNewGame s of None \<Rightarrow> s | Some s' \<Rightarrow> useEffect_squares s')"

section \<open>The outcome\<close>

datatype outcome = InProgress | Draw | WonBy mark "line option"

text \<open>
  The outcome the component shows, as the status message reads it off the state:
  \<^verbatim>\<open>if (winner) ... else if (isGameOver) ... else ...\<close>, with the winning line that is
  highlighted.
\<close>

definition outcome :: "state \<Rightarrow> outcome" where
  "outcome s =
     (case winner s of
        Some m \<Rightarrow> WonBy m (winningLine s)
      | None \<Rightarrow> if isGameOver s then Draw else InProgress)"

text \<open>The outcome of a board: what the effect computes from \<^verbatim>\<open>squares\<close> alone.\<close>

definition evaluateOutcome :: "jsarray \<Rightarrow> outcome" where
  "evaluateOutcome b =
     (case calculateWinner b of
        Some (maybeWinner, ln) \<Rightarrow> WonBy maybeWinner (Some ln)
      | None \<Rightarrow> if every_Boolean b then Draw else InProgress)"

text \<open>The derived fields of a state agree with its board: the effect would change nothing.\<close>

definition derived :: "state \<Rightarrow> bool" where
  "derived s = (useEffect_squares s = s)"

text \<open>A board as the data model has it: nine cells, none of them a hole.\<close>

definition is_board :: "jsarray \<Rightarrow> bool" where
  "is_board b = (length (elems b) = 9 \<and> list_all (\<lambda>e. e \<noteq> None) (elems b))"

text \<open>Applying a list of moves from a state, first move first.\<close>

fun applyMoves :: "state \<Rightarrow> int list \<Rightarrow> state" where
  "applyMoves s [] = s"
| "applyMoves s (i # rest) = applyMoves (applyMove s i) rest"

text \<open>The mark that moves next: \<^verbatim>\<open>xIsNext ? "X" : "O"\<close>.\<close>

definition turn :: "state \<Rightarrow> mark" where
  "turn s = (if xIsNext s then MarkX else MarkO)"

section \<open>The notions of the specification\<close>

text \<open>All three cells of a line hold the mark \<open>m\<close>.\<close>

definition line_holds :: "jsarray \<Rightarrow> mark \<Rightarrow> line \<Rightarrow> bool" where
  "line_holds b m ln =
     (case ln of (p, q, r) \<Rightarrow>
        arr_get b p = Some (Str m) \<and> arr_get b q = Some (Str m) \<and> arr_get b r = Some (Str m))"

text \<open>
  A valid move: a cell index from 0 to 8, the cell holds no mark, and the outcome is
  in-progress.
\<close>

definition valid_move :: "state \<Rightarrow> int \<Rightarrow> bool" where
  "valid_move s i = (0 \<le> i \<and> i \<le> 8 \<and> \<not> truthy (arr_get (squares s) i) \<and> outcome s = InProgress)"

fun valid_moves :: "state \<Rightarrow> int list \<Rightarrow> bool" where
  "valid_moves s [] = True"
| "valid_moves s (i # rest) = (valid_move s i \<and> valid_moves (applyMove s i) rest)"


text \<open>
  The states reached from the initial state by the three operations. The handler takes
  any integer and checks no range, so a move may be made at any integer index.
\<close>

inductive reachable :: "state \<Rightarrow> bool" where
  start: "reachable initial"
| move: "reachable s \<Longrightarrow> reachable (applyMove s i)"
| new_game: "reachable s \<Longrightarrow> reachable (newGame s)"
| reset: "reachable s \<Longrightarrow> reachable (reset s)"

text \<open>
  The states reached when every move is made at an array index, that is at an integer
  from 0 to \<open>2^32 - 2\<close>; the cell indices 0 to 8 are among them.
\<close>

inductive reachable_by_index :: "state \<Rightarrow> bool" where
  start: "reachable_by_index initial"
| move: "reachable_by_index s \<Longrightarrow> 0 \<le> i \<Longrightarrow> i < 2 ^ 32 - 1 \<Longrightarrow> reachable_by_index (applyMove s i)"
| new_game: "reachable_by_index s \<Longrightarrow> reachable_by_index (newGame s)"
| reset: "reachable_by_index s \<Longrightarrow> reachable_by_index (reset s)"


text \<open>A finished game: X holds the top row after the moves 0, 4, 1, 3, 2.\<close>

definition won_board :: jsarray where
  "won_board = \<lparr>elems = [Some (Str MarkX), Some (Str MarkX), Some (Str MarkX),
                          Some (Str MarkO), Some (Str MarkO), Some Null,
                          Some Null, Some Null, Some Null], props = []\<rparr>"

definition won_state :: state where
  "won_state = \<lparr>squares = won_board, xIsNext = False, history = [],
                isGameOver = True, winner = Some MarkX, winningLine = Some (0, 1, 2)\<rparr>"

section \<open>Basic facts\<close>

subsection \<open>Arrays\<close>

lemma arr_get_set_same: "arr_get (arr_set a i v) i = Some v"
  by (simp add: arr_get_def arr_set_def nth_append)

lemma arr_get_set_other: "j \<noteq> i \<Longrightarrow> arr_get (arr_set a i v) j = arr_get a j"
  by (auto simp add: arr_get_def arr_set_def nth_append is_index_def nth_Cons')

lemma arr_get_slice: "is_index j \<Longrightarrow> arr_get (arr_slice a) j = arr_get a j"
  by (simp add: arr_get_def arr_slice_def)

lemma truthy_iff: "truthy v \<longleftrightarrow> (\<exists>m. v = Some (Str m))"
  by (cases v rule: truthy.cases) simp_all

lemma empty_board_cells:
  "empty_board = \<lparr>elems = [Some Null, Some Null, Some Null, Some Null, Some Null, Some Null,
                           Some Null, Some Null, Some Null], props = []\<rparr>"
  by (simp add: empty_board_def eval_nat_numeral)

lemma calculateWinner_empty: "calculateWinner empty_board = None"
  by (simp add: calculateWinner_def lines_def empty_board_cells arr_get_def is_index_def)

lemma every_Boolean_empty: "\<not> every_Boolean empty_board"
  by (simp add: every_Boolean_def empty_board_cells)

subsection \<open>The effect\<close>

lemma outcome_useEffect: "outcome (useEffect_squares s) = evaluateOutcome (squares s)"
  by (simp add: useEffect_squares_def outcome_def evaluateOutcome_def
      split: option.splits prod.splits)

lemma squares_useEffect: "squares (useEffect_squares s) = squares s"
  and xIsNext_useEffect: "xIsNext (useEffect_squares s) = xIsNext s"
  and history_useEffect: "history (useEffect_squares s) = history s"
  by (simp_all add: useEffect_squares_def split: option.splits prod.splits)

lemma derived_useEffect: "derived (useEffect_squares s)"
  by (simp add: derived_def useEffect_squares_def split: option.splits prod.splits)

lemma useEffect_game_over:
  "winner (useEffect_squares s) \<noteq> None \<Longrightarrow> isGameOver (useEffect_squares s)"
  by (simp add: useEffect_squares_def split: option.splits prod.splits if_splits)

lemma derived_game_over: "derived s \<Longrightarrow> winner s \<noteq> None \<Longrightarrow> isGameOver s"
  using useEffect_game_over [of s] by (simp add: derived_def)

lemma in_progress_iff: "outcome s = InProgress \<longleftrightarrow> winner s = None \<and> \<not> isGameOver s"
  by (simp add: outcome_def split: option.splits)

subsection \<open>The handlers\<close>

lemma applyMove_early_return:
  "truthy (arr_get (squares s) i) \<or> isGameOver s \<Longrightarrow> applyMove s i = s"
  by (auto simp add: applyMove_def handleClick_def)

lemma applyMove_applied:
  assumes "\<not> truthy (arr_get (squares s) i)" and "\<not> isGameOver s"
  shows "applyMove s i =
           useEffect_squares
             (s\<lparr>history := history s @ [squares s],
                squares := arr_set (arr_slice (squares s)) i (Str (if xIsNext s then MarkX else MarkO)),
                xIsNext := \<not> xIsNext s\<rparr>)"
  using assms by (simp add: applyMove_def handleClick_def)

lemma reset_initial: "reset s = initial"
  by (simp add: reset_def handleReset_def useEffect_squares_def calculateWinner_empty
      every_Boolean_empty initial_def)

lemma newGame_cases: "newGame s = (if history s = [] then s else reset s)"
  by (simp add: newGame_def handleNewGame_def reset_def)

text \<open>Every reachable state has its derived fields computed from its board.\<close>

lemma derived_initial: "derived initial"
  by (simp add: derived_def initial_def useEffect_squares_def calculateWinner_empty
      every_Boolean_empty)

lemma derived_applyMove: "derived s \<Longrightarrow> derived (applyMove s i)"
  by (cases "handleClick s i") (simp_all add: applyMove_def derived_useEffect)

lemma reachable_derived: "reachable s \<Longrightarrow> derived s"
proof (induction rule: reachable.induct)
  case start
  show ?case by (rule derived_initial)
next
  case (move s i)
  then show ?case by (simp add: derived_applyMove)
next
  case (new_game s)
  then show ?case by (simp add: newGame_cases reset_initial derived_initial)
next
  case (reset s)
  show ?case by (simp add: reset_initial derived_initial)
qed

lemma reachable_by_index_reachable: "reachable_by_index s \<Longrightarrow> reachable s"
  by (induction rule: reachable_by_index.induct) (simp_all add: reachable.intros)

lemma derived_won_state: "derived won_state"
  by (simp add: derived_def won_state_def won_board_def useEffect_squares_def
      calculateWinner_def lines_def arr_get_def is_index_def)

section \<open>Evaluating the outcome of a board\<close>

lemma scan_lines_hit: "line_holds b m ln \<Longrightarrow> scan_lines b (ln # rest) = Some (m, ln)"
  by (cases ln) (simp add: line_holds_def)

lemma scan_lines_miss:
  "\<forall>m. \<not> line_holds b m ln \<Longrightarrow> scan_lines b (ln # rest) = scan_lines b rest"
  by (cases ln) (auto simp add: line_holds_def truthy_iff)

lemma line_holds_unique: "line_holds b m ln \<Longrightarrow> line_holds b m' ln \<Longrightarrow> m = m'"
  by (cases ln) (simp add: line_holds_def)

text \<open>The loop returns the first line of its list that some mark holds, with that mark.\<close>

lemma scan_lines_Some:
  "scan_lines b ls = Some (m, ln) \<longleftrightarrow>
     (\<exists>k < length ls. ln = ls ! k \<and> line_holds b m (ls ! k)
        \<and> (\<forall>j < k. \<forall>m'. \<not> line_holds b m' (ls ! j)))"
proof (induction ls)
  case Nil
  show ?case by simp
next
  case (Cons l ls)
  let ?first = "\<lambda>xs. \<exists>k < length xs. ln = xs ! k \<and> line_holds b m (xs ! k)
        \<and> (\<forall>j < k. \<forall>m'. \<not> line_holds b m' (xs ! j))"
  show ?case
  proof (cases "\<exists>m0. line_holds b m0 l")
    case True
    then obtain m0 where m0: "line_holds b m0 l" ..
    have ret: "scan_lines b (l # ls) = Some (m0, l)"
      using m0 by (rule scan_lines_hit)
    have "?first (l # ls) \<longleftrightarrow> ln = l \<and> m = m0"
    proof
      assume "?first (l # ls)"
      then obtain k where k: "ln = (l # ls) ! k" "line_holds b m ((l # ls) ! k)"
        "\<forall>j < k. \<forall>m'. \<not> line_holds b m' ((l # ls) ! j)" by blast
      have "k = 0"
      proof (rule ccontr)
        assume "k \<noteq> 0"
        then have "0 < k" by simp
        with k(3) have "\<not> line_holds b m0 ((l # ls) ! 0)" by blast
        with m0 show False by simp
      qed
      with k(1,2) m0 show "ln = l \<and> m = m0"
        by (auto dest: line_holds_unique)
    next
      assume "ln = l \<and> m = m0"
      with m0 have "0 < length (l # ls) \<and> ln = (l # ls) ! 0 \<and> line_holds b m ((l # ls) ! 0)
        \<and> (\<forall>j < 0. \<forall>m'. \<not> line_holds b m' ((l # ls) ! j))" by simp
      then show "?first (l # ls)" by blast
    qed
    with ret show ?thesis by auto
  next
    case False
    then have miss: "\<forall>m. \<not> line_holds b m l" by simp
    then have "scan_lines b (l # ls) = scan_lines b ls"
      by (rule scan_lines_miss)
    moreover have "?first (l # ls) \<longleftrightarrow> ?first ls"
      using miss by (simp add: Ex_less_Suc2 All_less_Suc2)
    ultimately show ?thesis
      using Cons.IH by simp
  qed
qed

lemma scan_lines_None:
  "scan_lines b ls = None \<longleftrightarrow> (\<forall>k < length ls. \<forall>m. \<not> line_holds b m (ls ! k))"
proof (induction ls)
  case Nil
  show ?case by simp
next
  case (Cons l ls)
  show ?case
  proof (cases "\<exists>m0. line_holds b m0 l")
    case True
    then obtain m0 where m0: "line_holds b m0 l" ..
    then have "scan_lines b (l # ls) = Some (m0, l)"
      by (rule scan_lines_hit)
    moreover have "\<not> (\<forall>k < length (l # ls). \<forall>m. \<not> line_holds b m ((l # ls) ! k))"
      using m0 by (auto intro!: exI [of _ 0])
    ultimately show ?thesis by simp
  next
    case False
    then have miss: "\<forall>m. \<not> line_holds b m l" by simp
    then have "scan_lines b (l # ls) = scan_lines b ls"
      by (rule scan_lines_miss)
    then show ?thesis
      using Cons.IH miss by (simp add: All_less_Suc2)
  qed
qed

text \<open>On a board of nine cells, \<^verbatim>\<open>every(Boolean)\<close> says that no cell is empty.\<close>

lemma every_Boolean_board:
  assumes "is_board b"
  shows "every_Boolean b \<longleftrightarrow> (\<forall>i. 0 \<le> i \<and> i \<le> 8 \<longrightarrow> arr_get b i \<noteq> Some Null)"
proof -
  have len: "length (elems b) = 9" and full: "\<forall>e \<in> set (elems b). e \<noteq> None"
    using assms by (simp_all add: is_board_def list_all_iff)
  have get: "arr_get b i = elems b ! nat i" if "0 \<le> i" "i \<le> 8" for i
  proof -
    from that have "nat i < 9" by arith
    from that have "is_index i" by (simp add: is_index_def)
    with len \<open>nat i < 9\<close> show ?thesis by (simp add: arr_get_def)
  qed
  have "every_Boolean b \<longleftrightarrow> (\<forall>e \<in> set (elems b). e \<noteq> Some Null)"
    using full unfolding every_Boolean_def list_all_iff
    by (auto split: option.splits simp add: truthy_iff) (metis cell.exhaust)
  also have "\<dots> \<longleftrightarrow> (\<forall>k < 9. elems b ! k \<noteq> Some Null)"
    using len by (simp add: all_set_conv_all_nth)
  also have "\<dots> \<longleftrightarrow> (\<forall>i. 0 \<le> i \<and> i \<le> 8 \<longrightarrow> arr_get b i \<noteq> Some Null)"
  proof
    assume h: "\<forall>k < 9. elems b ! k \<noteq> Some Null"
    show "\<forall>i. 0 \<le> i \<and> i \<le> 8 \<longrightarrow> arr_get b i \<noteq> Some Null"
    proof (intro allI impI)
      fix i :: int assume i: "0 \<le> i \<and> i \<le> 8"
      then have "nat i < 9" by arith
      with h have "elems b ! nat i \<noteq> Some Null" by blast
      with i show "arr_get b i \<noteq> Some Null" by (simp add: get)
    qed
  next
    assume h: "\<forall>i. 0 \<le> i \<and> i \<le> 8 \<longrightarrow> arr_get b i \<noteq> Some Null"
    show "\<forall>k < 9. elems b ! k \<noteq> Some Null"
    proof (intro allI impI)
      fix k :: nat assume "k < 9"
      then have "0 \<le> int k \<and> int k \<le> 8" by arith
      with h have "arr_get b (int k) \<noteq> Some Null" by blast
      with \<open>k < 9\<close> show "elems b ! k \<noteq> Some Null" using get [of "int k"] by simp
    qed
  qed
  finally show ?thesis .
qed

text \<open>
  Claim C1. The outcome of a board is a function of the board alone. The eight lines
  are scanned in the order rows from the top, columns from the left, the diagonal from
  the top left, the diagonal from the top right. For every board of nine cells the
  outcome is won-by \<open>m\<close> with line \<open>ln\<close> exactly when \<open>ln\<close> is the first line in that
  order whose three cells hold one mark, and \<open>m\<close> is that mark; it is a draw exactly
  when no line is held and none of the nine cells is empty; it is in-progress exactly
  when no line is held and some cell is empty.
\<close>

theorem evaluate_outcome_spec:
  assumes "is_board b"
  shows "lines = [(0, 1, 2), (3, 4, 5), (6, 7, 8), (0, 3, 6), (1, 4, 7), (2, 5, 8),
                  (0, 4, 8), (2, 4, 6)]
    \<and> (\<forall>m ln. evaluateOutcome b = WonBy m ln \<longleftrightarrow>
          (\<exists>k < 8. ln = Some (lines ! k) \<and> line_holds b m (lines ! k)
             \<and> (\<forall>j < k. \<forall>m'. \<not> line_holds b m' (lines ! j))))
    \<and> (evaluateOutcome b = Draw \<longleftrightarrow>
          (\<forall>k < 8. \<forall>m. \<not> line_holds b m (lines ! k))
          \<and> (\<forall>i. 0 \<le> i \<and> i \<le> 8 \<longrightarrow> arr_get b i \<noteq> Some Null))
    \<and> (evaluateOutcome b = InProgress \<longleftrightarrow>
          (\<forall>k < 8. \<forall>m. \<not> line_holds b m (lines ! k))
          \<and> (\<exists>i. 0 \<le> i \<and> i \<le> 8 \<and> arr_get b i = Some Null))"
proof -
  have len: "length lines = 8"
    by (simp add: lines_def)
  have won: "evaluateOutcome b = WonBy m ln \<longleftrightarrow>
          (\<exists>k < 8. ln = Some (lines ! k) \<and> line_holds b m (lines ! k)
             \<and> (\<forall>j < k. \<forall>m'. \<not> line_holds b m' (lines ! j)))" for m ln
  proof (cases ln)
    case None
    then show ?thesis
      by (simp add: evaluateOutcome_def split: option.splits)
  next
    case (Some l)
    have "evaluateOutcome b = WonBy m (Some l) \<longleftrightarrow> scan_lines b lines = Some (m, l)"
      by (auto simp add: evaluateOutcome_def calculateWinner_def split: option.splits)
    then show ?thesis
      using Some scan_lines_Some [of b lines m l] len by simp
  qed
  have none: "calculateWinner b = None \<longleftrightarrow> (\<forall>k < 8. \<forall>m. \<not> line_holds b m (lines ! k))"
    using scan_lines_None [of b lines] len by (simp add: calculateWinner_def)
  have full: "every_Boolean b \<longleftrightarrow> (\<forall>i. 0 \<le> i \<and> i \<le> 8 \<longrightarrow> arr_get b i \<noteq> Some Null)"
    using assms by (rule every_Boolean_board)
  have draw: "evaluateOutcome b = Draw \<longleftrightarrow> calculateWinner b = None \<and> every_Boolean b"
    and playing: "evaluateOutcome b = InProgress \<longleftrightarrow> calculateWinner b = None \<and> \<not> every_Boolean b"
    by (auto simp add: evaluateOutcome_def split: option.splits)
  show ?thesis
    using won draw playing none full by (simp add: lines_def [symmetric])
qed

theorem evaluate_outcome_spec_witness:
  "is_board won_board \<and> line_holds won_board MarkX (0, 1, 2)
   \<and> evaluateOutcome won_board = WonBy MarkX (Some (0, 1, 2))"
proof -
  have board: "is_board won_board"
    by (simp add: is_board_def won_board_def)
  have row: "line_holds won_board MarkX (0, 1, 2)"
    by (simp add: line_holds_def won_board_def arr_get_def is_index_def)
  have first: "lines ! 0 = (0, 1, 2)"
    by (simp add: lines_def)
  from evaluate_outcome_spec [OF board]
  have "evaluateOutcome won_board = WonBy MarkX (Some (lines ! 0)) \<longleftrightarrow>
          (\<exists>k < 8. Some (lines ! 0) = Some (lines ! k) \<and> line_holds won_board MarkX (lines ! k)
             \<and> (\<forall>j < k. \<forall>m'. \<not> line_holds won_board m' (lines ! j)))"
    by blast
  moreover have "\<exists>k < 8. Some (lines ! 0) = Some (lines ! k)
             \<and> line_holds won_board MarkX (lines ! k)
             \<and> (\<forall>j < k. \<forall>m'. \<not> line_holds won_board m' (lines ! j))"
    using row first by (intro exI [of _ 0]) simp
  ultimately show ?thesis
    using board row first by simp
qed

section \<open>Applying a move\<close>

text \<open>
  Claim C2. For every state and every cell index from 0 to 8: if the cell holds a
  mark, or the outcome shown is not in-progress (in a state whose derived fields were
  computed from its board, as they are after every commit), then applying the move
  returns the state as it was: board, turn, outcome fields and history are unchanged.
  The operation has no error result.
\<close>

theorem apply_move_rejected:
  assumes "0 \<le> i" and "i \<le> 8"
    and "truthy (arr_get (squares s) i) \<or> (derived s \<and> outcome s \<noteq> InProgress)"
  shows "applyMove s i = s"
proof -
  have "truthy (arr_get (squares s) i) \<or> isGameOver s"
    using assms(3) derived_game_over [of s]
    by (auto simp add: outcome_def split: option.splits if_splits)
  then show ?thesis
    by (rule applyMove_early_return)
qed

theorem apply_move_rejected_witness:
  "truthy (arr_get (squares won_state) 0) \<and> derived won_state \<and> outcome won_state \<noteq> InProgress
   \<and> \<not> truthy (arr_get (squares won_state) 5)
   \<and> applyMove won_state 0 = won_state \<and> applyMove won_state 5 = won_state"
proof -
  have occupied: "truthy (arr_get (squares won_state) 0)"
    and empty: "\<not> truthy (arr_get (squares won_state) 5)"
    by (simp_all add: won_state_def won_board_def arr_get_def is_index_def)
  have over: "outcome won_state \<noteq> InProgress"
    by (simp add: won_state_def outcome_def)
  show ?thesis
    using occupied empty over derived_won_state
      apply_move_rejected [of 0 won_state] apply_move_rejected [of 5 won_state]
    by simp
qed

text \<open>
  Claim C3. For every state whose outcome is in-progress and every cell index from 0
  to 8 whose cell holds no mark, applying the move stores the mark of the current turn
  in that cell of a copy of the board, appends the board from before the move to the
  history, flips the turn, and the outcome shown afterwards is the outcome evaluated
  from the new board.
\<close>

theorem apply_move_accepted:
  assumes "outcome s = InProgress" and "0 \<le> i" and "i \<le> 8"
    and "\<not> truthy (arr_get (squares s) i)"
  shows "squares (applyMove s i) = arr_set (arr_slice (squares s)) i (Str (turn s))
       \<and> arr_get (squares (applyMove s i)) i = Some (Str (turn s))
       \<and> history (applyMove s i) = history s @ [squares s]
       \<and> xIsNext (applyMove s i) = (\<not> xIsNext s)
       \<and> turn (applyMove s i) \<noteq> turn s
       \<and> outcome (applyMove s i) = evaluateOutcome (squares (applyMove s i))"
proof -
  have "\<not> isGameOver s"
    using assms(1) by (simp add: in_progress_iff)
  with assms(4) show ?thesis
    by (simp add: applyMove_applied squares_useEffect history_useEffect xIsNext_useEffect
        outcome_useEffect arr_get_set_same turn_def)
qed

theorem apply_move_accepted_witness:
  "outcome initial = InProgress \<and> \<not> truthy (arr_get (squares initial) 4)
   \<and> arr_get (squares (applyMove initial 4)) 4 = Some (Str MarkX)
   \<and> history (applyMove initial 4) = [empty_board]
   \<and> \<not> xIsNext (applyMove initial 4)
   \<and> outcome (applyMove initial 4) = evaluateOutcome (squares (applyMove initial 4))"
proof -
  have playing: "outcome initial = InProgress"
    by (simp add: initial_def outcome_def)
  have empty: "\<not> truthy (arr_get (squares initial) 4)"
    by (simp add: initial_def empty_board_def arr_get_def is_index_def)
  have fields: "turn initial = MarkX" "xIsNext initial" "history initial = []"
    "squares initial = empty_board"
    by (simp_all add: initial_def turn_def)
  show ?thesis
    using playing empty fields apply_move_accepted [of initial 4]
    by (simp add: arr_get_set_same)
qed

text \<open>
  Claim C10. For every state whose outcome is in-progress and every cell index \<open>i\<close>
  from 0 to 8 whose cell holds no mark, applying the move at \<open>i\<close> leaves every other
  cell \<open>j\<close> of the board with the content it had.
\<close>

theorem apply_move_frame:
  assumes "outcome s = InProgress" and "0 \<le> i" and "i \<le> 8"
    and "\<not> truthy (arr_get (squares s) i)"
    and "0 \<le> j" and "j \<le> 8" and "j \<noteq> i"
  shows "arr_get (squares (applyMove s i)) j = arr_get (squares s) j"
proof -
  have idx: "is_index j"
    using assms(5,6) by (simp add: is_index_def)
  have "\<not> isGameOver s"
    using assms(1) by (simp add: in_progress_iff)
  with assms(4) have "squares (applyMove s i)
      = arr_set (arr_slice (squares s)) i (Str (if xIsNext s then MarkX else MarkO))"
    by (simp add: applyMove_applied squares_useEffect)
  then show ?thesis
    using assms(7) idx by (simp add: arr_get_set_other arr_get_slice)
qed

theorem apply_move_frame_witness:
  "outcome initial = InProgress \<and> \<not> truthy (arr_get (squares initial) 4)
   \<and> arr_get (squares (applyMove initial 4)) 3 = arr_get (squares initial) 3
   \<and> arr_get (squares initial) 3 = Some Null"
proof -
  have playing: "outcome initial = InProgress"
    by (simp add: initial_def outcome_def)
  have empty: "\<not> truthy (arr_get (squares initial) 4)"
    and other: "arr_get (squares initial) 3 = Some Null"
    by (simp_all add: initial_def empty_board_def arr_get_def is_index_def)
  show ?thesis
    using playing empty other apply_move_frame [of initial 4 3]
    by simp
qed

text \<open>
  Claim C4, as the specification states it: for every state and every integer index
  outside 0 to 8, applying the move changes nothing. The handler has no range check:
  at index 9 of the initial state the cell read is \<^verbatim>\<open>undefined\<close>, the game is not over,
  and the move is applied. The array grows to ten elements, the turn flips and the
  history grows.
\<close>

theorem out_of_range_counterexample:
  "applyMove initial 9 \<noteq> initial
   \<and> elems (squares (applyMove initial 9)) = replicate 9 (Some Null) @ [Some (Str MarkX)]
   \<and> \<not> xIsNext (applyMove initial 9)
   \<and> history (applyMove initial 9) = [empty_board]"
  by code_simp

text \<open>
  Claim C4, amended. For every state and every integer index outside 0 to 8, applying
  the move changes nothing when the game is over or the array holds a mark under that
  index. Otherwise the move is applied: the board from before is appended to the
  history, the turn flips, and the mark of the current turn is stored under the index
  in a copy of the array. For an index from 9 to \<open>2^32 - 2\<close> the copy is extended to the
  length index + 1, with holes in between, when the index is at or beyond the length
  of the array, and the element is overwritten, the length staying as it is, when the
  array is already longer than the index. For a negative index and for an index of
  \<open>2^32 - 1\<close> or more, the mark is stored as a property of the copy, whose elements and
  length are those of the array.
\<close>

theorem out_of_range_move:
  assumes "i < 0 \<or> 8 < i"
  shows "(truthy (arr_get (squares s) i) \<or> isGameOver s \<longrightarrow> applyMove s i = s)
       \<and> (\<not> truthy (arr_get (squares s) i) \<and> \<not> isGameOver s \<longrightarrow>
            squares (applyMove s i) = arr_set (arr_slice (squares s)) i (Str (turn s))
          \<and> arr_get (squares (applyMove s i)) i = Some (Str (turn s))
          \<and> history (applyMove s i) = history s @ [squares s]
          \<and> xIsNext (applyMove s i) = (\<not> xIsNext s)
          \<and> (8 < i \<and> i < 2 ^ 32 - 1 \<and> length (elems (squares s)) \<le> nat i \<longrightarrow>
                squares (applyMove s i)
                  = \<lparr>elems = elems (squares s)
                              @ replicate (nat i - length (elems (squares s))) None
                              @ [Some (Str (turn s))],
                     props = []\<rparr>
              \<and> length (elems (squares (applyMove s i))) = nat i + 1)
          \<and> (8 < i \<and> i < 2 ^ 32 - 1 \<and> nat i < length (elems (squares s)) \<longrightarrow>
                squares (applyMove s i)
                  = \<lparr>elems = (elems (squares s))[nat i := Some (Str (turn s))], props = []\<rparr>
              \<and> length (elems (squares (applyMove s i))) = length (elems (squares s)))
          \<and> (i < 0 \<or> 2 ^ 32 - 1 \<le> i \<longrightarrow>
                squares (applyMove s i)
                  = \<lparr>elems = elems (squares s), props = [(i, Str (turn s))]\<rparr>
              \<and> length (elems (squares (applyMove s i))) = length (elems (squares s))))"
proof -
  have rejected: "truthy (arr_get (squares s) i) \<or> isGameOver s \<longrightarrow> applyMove s i = s"
    by (simp add: applyMove_early_return)
  have applied: "squares (applyMove s i) = arr_set (arr_slice (squares s)) i (Str (turn s))
      \<and> arr_get (squares (applyMove s i)) i = Some (Str (turn s))
      \<and> history (applyMove s i) = history s @ [squares s]
      \<and> xIsNext (applyMove s i) = (\<not> xIsNext s)"
    if "\<not> truthy (arr_get (squares s) i)" "\<not> isGameOver s"
    using that
    by (simp add: applyMove_applied squares_useEffect history_useEffect xIsNext_useEffect
        arr_get_set_same turn_def)
  have extended: "arr_set (arr_slice a) i v
        = \<lparr>elems = elems a @ replicate (nat i - length (elems a)) None @ [Some v], props = []\<rparr>
      \<and> length (elems (arr_set (arr_slice a) i v)) = nat i + 1"
    if "8 < i" "i < 2 ^ 32 - 1" "length (elems a) \<le> nat i" for a v
    using that by (simp add: arr_set_def arr_slice_def is_index_def)
  have overwritten: "arr_set (arr_slice a) i v = \<lparr>elems = (elems a)[nat i := Some v], props = []\<rparr>
      \<and> length (elems (arr_set (arr_slice a) i v)) = length (elems a)"
    if "8 < i" "i < 2 ^ 32 - 1" "nat i < length (elems a)" for a v
    using that by (simp add: arr_set_def arr_slice_def is_index_def)
  have property: "arr_set (arr_slice a) i v = \<lparr>elems = elems a, props = [(i, v)]\<rparr>
      \<and> length (elems (arr_set (arr_slice a) i v)) = length (elems a)"
    if "i < 0 \<or> 2 ^ 32 - 1 \<le> i" for a v
    using that by (auto simp add: arr_set_def arr_slice_def is_index_def)
  have accepted: "squares (applyMove s i) = arr_set (arr_slice (squares s)) i (Str (turn s))
      \<and> arr_get (squares (applyMove s i)) i = Some (Str (turn s))
      \<and> history (applyMove s i) = history s @ [squares s]
      \<and> xIsNext (applyMove s i) = (\<not> xIsNext s)
      \<and> (8 < i \<and> i < 2 ^ 32 - 1 \<and> length (elems (squares s)) \<le> nat i \<longrightarrow>
            squares (applyMove s i)
              = \<lparr>elems = elems (squares s)
                          @ replicate (nat i - length (elems (squares s))) None
                          @ [Some (Str (turn s))],
                 props = []\<rparr>
          \<and> length (elems (squares (applyMove s i))) = nat i + 1)
      \<and> (8 < i \<and> i < 2 ^ 32 - 1 \<and> nat i < length (elems (squares s)) \<longrightarrow>
            squares (applyMove s i)
              = \<lparr>elems = (elems (squares s))[nat i := Some (Str (turn s))], props = []\<rparr>
          \<and> length (elems (squares (applyMove s i))) = length (elems (squares s)))
      \<and> (i < 0 \<or> 2 ^ 32 - 1 \<le> i \<longrightarrow>
            squares (applyMove s i)
              = \<lparr>elems = elems (squares s), props = [(i, Str (turn s))]\<rparr>
          \<and> length (elems (squares (applyMove s i))) = length (elems (squares s)))"
    if free: "\<not> truthy (arr_get (squares s) i)" and playing: "\<not> isGameOver s"
  proof -
    note ap = applied [OF free playing]
    then have sq: "squares (applyMove s i) = arr_set (arr_slice (squares s)) i (Str (turn s))"
      by simp
    from ap have hist: "history (applyMove s i) = history s @ [squares s]"
      and flip: "xIsNext (applyMove s i) = (\<not> xIsNext s)"
      by simp_all
    have stored: "arr_get (arr_set (arr_slice (squares s)) i (Str (turn s))) i = Some (Str (turn s))"
      by (rule arr_get_set_same)
    show ?thesis
      unfolding sq
      using hist flip stored extended [of "squares s" "Str (turn s)"]
        overwritten [of "squares s" "Str (turn s)"] property [of "squares s" "Str (turn s)"]
      by blast
  qed
  from rejected accepted show ?thesis
    by blast
qed

theorem out_of_range_move_witness:
  "isGameOver (applyMoves initial [0, 4, 1, 3, 2])
   \<and> applyMove (applyMoves initial [0, 4, 1, 3, 2]) 9 = applyMoves initial [0, 4, 1, 3, 2]
   \<and> \<not> truthy (arr_get (squares initial) 10) \<and> \<not> isGameOver initial
   \<and> elems (squares (applyMove initial 10)) = replicate 9 (Some Null) @ [None, Some (Str MarkX)]
   \<and> length (elems (squares (applyMove initial 10))) = 11
   \<and> \<not> truthy (arr_get (squares initial) 4294967295)
   \<and> squares (applyMove initial 4294967295)
        = \<lparr>elems = replicate 9 (Some Null), props = [(4294967295, Str MarkX)]\<rparr>
   \<and> \<not> truthy (arr_get (squares initial) (- 1))
   \<and> squares (applyMove initial (- 1))
        = \<lparr>elems = replicate 9 (Some Null), props = [(- 1, Str MarkX)]\<rparr>
   \<and> arr_get (squares (applyMove initial (- 1))) (- 1) = Some (Str MarkX)
   \<and> history (applyMove initial (- 1)) = [empty_board]
   \<and> \<not> xIsNext (applyMove initial (- 1))"
proof -
  have over: "isGameOver (applyMoves initial [0, 4, 1, 3, 2])"
    by code_simp
  have free: "\<not> truthy (arr_get (squares initial) 10)"
    "\<not> truthy (arr_get (squares initial) 4294967295)"
    "\<not> truthy (arr_get (squares initial) (- 1))"
    by (simp_all add: initial_def empty_board_def arr_get_def is_index_def)
  have fields: "\<not> isGameOver initial" "turn initial = MarkX" "xIsNext initial"
    "history initial = []" "squares initial = empty_board"
    "elems empty_board = replicate 9 (Some Null)"
    by (simp_all add: initial_def turn_def empty_board_def)
  have a: "applyMove (applyMoves initial [0, 4, 1, 3, 2]) 9 = applyMoves initial [0, 4, 1, 3, 2]"
    using over out_of_range_move [of 9 "applyMoves initial [0, 4, 1, 3, 2]"] by simp
  have b: "elems (squares (applyMove initial 10)) = replicate 9 (Some Null) @ [None, Some (Str MarkX)]
      \<and> length (elems (squares (applyMove initial 10))) = 11"
    using free fields out_of_range_move [of 10 initial]
    by (simp add: eval_nat_numeral arr_set_def arr_slice_def is_index_def)
  have c: "squares (applyMove initial 4294967295)
        = \<lparr>elems = replicate 9 (Some Null), props = [(4294967295, Str MarkX)]\<rparr>"
    using free fields out_of_range_move [of 4294967295 initial]
    by (simp add: arr_set_def arr_slice_def is_index_def)
  have d: "squares (applyMove initial (- 1))
        = \<lparr>elems = replicate 9 (Some Null), props = [(- 1, Str MarkX)]\<rparr>
      \<and> arr_get (squares (applyMove initial (- 1))) (- 1) = Some (Str MarkX)
      \<and> history (applyMove initial (- 1)) = [empty_board]
      \<and> \<not> xIsNext (applyMove initial (- 1))"
    using free fields out_of_range_move [of "- 1" initial]
    by (simp add: arr_set_def arr_slice_def is_index_def arr_get_def)
  show ?thesis
    using over free fields(1) a b c d by blast
qed

section \<open>Turns\<close>

lemma valid_move_flips: "valid_move s i \<Longrightarrow> xIsNext (applyMove s i) = (\<not> xIsNext s)"
  by (simp add: valid_move_def in_progress_iff applyMove_applied xIsNext_useEffect)

lemma valid_moves_turn:
  "valid_moves s ms \<Longrightarrow>
     xIsNext (applyMoves s ms) = (if even (length ms) then xIsNext s else \<not> xIsNext s)"
proof (induction ms arbitrary: s)
  case Nil
  show ?case by simp
next
  case (Cons i ms)
  from Cons.prems have v: "valid_move s i" and rest: "valid_moves (applyMove s i) ms"
    by simp_all
  from Cons.IH [OF rest] valid_move_flips [OF v] show ?case
    by simp
qed

text \<open>
  Claim C5. After any sequence of N valid moves, each applied to the state the moves
  before it produced, starting from the initial state, the mark to move is X when N is
  even and O when N is odd.
\<close>

theorem turn_after_moves:
  assumes "valid_moves initial ms"
  shows "turn (applyMoves initial ms) = (if even (length ms) then MarkX else MarkO)"
  using valid_moves_turn [OF assms] by (simp add: turn_def initial_def)

theorem turn_after_moves_witness:
  "valid_moves initial [0, 4, 1] \<and> turn (applyMoves initial [0, 4, 1]) = MarkO
   \<and> valid_moves initial [0, 4] \<and> turn (applyMoves initial [0, 4]) = MarkX"
proof -
  have three: "valid_moves initial [0, 4, 1]" and two: "valid_moves initial [0, 4]"
    by code_simp+
  show ?thesis
    using three two turn_after_moves [of "[0, 4, 1]"] turn_after_moves [of "[0, 4]"]
    by simp
qed

section \<open>Reset and new game\<close>

text \<open>
  Claim C6. Reset has no precondition: from every state it gives the state with nine
  empty cells, X to move, no history, and the outcome in-progress.
\<close>

theorem reset_result:
  "reset s = \<lparr>squares = \<lparr>elems = replicate 9 (Some Null), props = []\<rparr>, xIsNext = True,
              history = [], isGameOver = False, winner = None, winningLine = None\<rparr>
   \<and> turn (reset s) = MarkX
   \<and> outcome (reset s) = InProgress"
  by (simp add: reset_initial initial_def empty_board_def outcome_def turn_def)

text \<open>
  Claim C7. In a state with a non-empty history, new game gives the state that reset
  gives; in a state with an empty history it changes nothing.
\<close>

theorem new_game_reset:
  "(history s \<noteq> [] \<longrightarrow> newGame s = reset s) \<and> (history s = [] \<longrightarrow> newGame s = s)"
  by (simp add: newGame_cases)

theorem new_game_reset_witness:
  "history (applyMove initial 0) \<noteq> [] \<and> newGame (applyMove initial 0) = reset (applyMove initial 0)
   \<and> history initial = [] \<and> newGame initial = initial"
proof -
  have moved: "history (applyMove initial 0) \<noteq> []"
    by (simp add: applyMove_def handleClick_def initial_def empty_board_def arr_get_def
        is_index_def history_useEffect)
  have fresh: "history initial = []"
    by (simp add: initial_def)
  show ?thesis
    using moved fresh new_game_reset [of "applyMove initial 0"] new_game_reset [of initial]
    by simp
qed

section \<open>The balance of marks\<close>











section \<open>A game won on the top row\<close>

text \<open>
  Claim C9. From the initial state, the moves at 0, 4, 1, 3, 2 place X, O, X, O, X, and
  after the fifth the outcome is won-by X with the line 0, 1, 2.
\<close>

theorem scenario_top_row:
  "outcome (applyMoves initial [0, 4, 1, 3, 2]) = WonBy MarkX (Some (0, 1, 2))
   \<and> squares (applyMoves initial [0, 4, 1, 3, 2]) = won_board
   \<and> outcome (applyMoves initial [0, 4, 1, 3]) = InProgress"
  by code_simp

end
